theory Spec2Isabelle
  imports Main "HOL-Library.Sublist"
begin

text \<open>
  The cache repair and muxing tool of \<^verbatim>\<open>main.go\<close> and \<^verbatim>\<open>common/util.go\<close>, as functions
  on an explicit state: the file system, the configuration and the variables of
  \<open>main\<close>. A function that can fail returns its Go error as a value; a panic and
  \<^verbatim>\<open>os.Exit\<close> are the left injection of a sum. Log lines, message boxes and the
  goroutines that print the output of the muxer change none of these values and are
  left out.
\<close>

section \<open>Go strings\<close>

text \<open>
  A Go \<^verbatim>\<open>string\<close> is a sequence of bytes, modelled as \<^typ>\<open>string\<close> (a list of
  \<^typ>\<open>char\<close>, one per byte). Text outside ASCII is written as its UTF-8 bytes.
\<close>

type_synonym path = string

text \<open>
  A Go \<^verbatim>\<open>error\<close> value. \<open>PathError op p\<close> is the \<^verbatim>\<open>*os.PathError\<close> of the failed
  operation \<open>op\<close> on the path \<open>p\<close>. A function that returns \<^verbatim>\<open>error\<close> returns an
  \<open>error option\<close>, \<open>None\<close> for \<^verbatim>\<open>nil\<close>.
\<close>

datatype error = PathError string path | OtherError string

text \<open>
  The two ways in which a call does not return: a run-time panic, and \<^verbatim>\<open>os.Exit\<close>
  with its exit code.
\<close>

datatype abort = Panic string | Exit int

text \<open>
  \<^verbatim>\<open>strings.ReplaceAll(s, old, new)\<close>: the non-overlapping occurrences of \<open>old\<close> are
  replaced from left to right. For an empty \<open>old\<close> Go inserts \<open>new\<close> at the start and
  after every UTF-8 sequence; the first equation does so after every byte, which is the
  same on ASCII text.
\<close>

function ReplaceAll :: "string \<Rightarrow> string \<Rightarrow> string \<Rightarrow> string" where
  "ReplaceAll s [] new = new @ concat (map (\<lambda>c. c # new) s)"
| "ReplaceAll [] (a # old) new = []"
| "ReplaceAll (c # cs) (a # old) new =
     (if prefix (a # old) (c # cs)
      then new @ ReplaceAll (drop (length (a # old)) (c # cs)) (a # old) new
      else c # ReplaceAll cs (a # old) new)"
  by pat_completeness auto
termination
  by (relation "measure (\<lambda>(s, old, new). length s)") auto

text \<open>\<^verbatim>\<open>strings.Contains(s, substr)\<close>.\<close>

fun Contains :: "string \<Rightarrow> string \<Rightarrow> bool" where
  "Contains [] substr = (substr = [])"
| "Contains (c # cs) substr = (prefix substr (c # cs) \<or> Contains cs substr)"

text \<open>
  \<^verbatim>\<open>strings.TrimSpace(s)\<close> removes the leading and the trailing runes for which
  \<^verbatim>\<open>unicode.IsSpace\<close> holds. A rune decoded at the front or at the back of a byte
  string is a white space rune exactly when the string starts, or ends, with the UTF-8
  encoding of that rune (the decoder accepts the shortest encoding only, and yields the
  non-space U+FFFD on every invalid byte), so the model strips encodings:
  \<open>leading_space\<close> is the width of the white space rune a string starts with, 0 if it
  starts with none, and \<open>trailing_space\<close> that of the one it ends with. The runes are
  U+0009..U+000D, U+0020, U+0085, U+00A0, U+1680, U+2000..U+200A, U+2028, U+2029, U+202F,
  U+205F and U+3000.
\<close>

definition space_encodings :: "string list" where
  "space_encodings =
     [[CHR 0x09], [CHR 0x0A], [CHR 0x0B], [CHR 0x0C], [CHR 0x0D], [CHR 0x20],
      [CHR 0xC2, CHR 0x85], [CHR 0xC2, CHR 0xA0],
      [CHR 0xE1, CHR 0x9A, CHR 0x80],
      [CHR 0xE2, CHR 0x80, CHR 0x80], [CHR 0xE2, CHR 0x80, CHR 0x81],
      [CHR 0xE2, CHR 0x80, CHR 0x82], [CHR 0xE2, CHR 0x80, CHR 0x83],
      [CHR 0xE2, CHR 0x80, CHR 0x84], [CHR 0xE2, CHR 0x80, CHR 0x85],
      [CHR 0xE2, CHR 0x80, CHR 0x86], [CHR 0xE2, CHR 0x80, CHR 0x87],
      [CHR 0xE2, CHR 0x80, CHR 0x88], [CHR 0xE2, CHR 0x80, CHR 0x89],
      [CHR 0xE2, CHR 0x80, CHR 0x8A],
      [CHR 0xE2, CHR 0x80, CHR 0xA8], [CHR 0xE2, CHR 0x80, CHR 0xA9],
      [CHR 0xE2, CHR 0x80, CHR 0xAF], [CHR 0xE2, CHR 0x81, CHR 0x9F],
      [CHR 0xE3, CHR 0x80, CHR 0x80]]"

definition leading_space :: "string \<Rightarrow> nat" where
  "leading_space s =
     (case find (\<lambda>e. prefix e s) space_encodings of None \<Rightarrow> 0 | Some e \<Rightarrow> length e)"

definition trailing_space :: "string \<Rightarrow> nat" where
  "trailing_space s =
     (case find (\<lambda>e. suffix e s) space_encodings of None \<Rightarrow> 0 | Some e \<Rightarrow> length e)"

lemma leading_space_le: "leading_space s \<le> length s"
  unfolding leading_space_def
  by (auto split: option.splits dest!: find_Some_iff[THEN iffD1] prefix_length_le)

lemma trailing_space_le: "trailing_space s \<le> length s"
  unfolding trailing_space_def
  by (auto split: option.splits dest!: find_Some_iff[THEN iffD1] suffix_length_le)

function TrimLeftSpace :: "string \<Rightarrow> string" where
  "TrimLeftSpace s =
     (if leading_space s = 0 then s else TrimLeftSpace (drop (leading_space s) s))"
  by pat_completeness auto
termination
proof (relation "measure length")
  fix s :: string
  assume "leading_space s \<noteq> 0"
  moreover have "leading_space s \<le> length s" by (rule leading_space_le)
  ultimately show "(drop (leading_space s) s, s) \<in> measure length" by simp
qed simp

function TrimRightSpace :: "string \<Rightarrow> string" where
  "TrimRightSpace s =
     (if trailing_space s = 0 then s
      else TrimRightSpace (take (length s - trailing_space s) s))"
  by pat_completeness auto
termination
proof (relation "measure length")
  fix s :: string
  assume "trailing_space s \<noteq> 0"
  moreover have "trailing_space s \<le> length s" by (rule trailing_space_le)
  ultimately show "(take (length s - trailing_space s) s, s) \<in> measure length" by simp
qed simp

definition TrimSpace :: "string \<Rightarrow> string" where
  "TrimSpace s = TrimRightSpace (TrimLeftSpace s)"

declare TrimLeftSpace.simps [simp del] TrimRightSpace.simps [simp del]

text \<open>\<^verbatim>\<open>strconv.Itoa\<close>: the decimal digits of an integer, with a sign when negative.\<close>

fun digits :: "nat \<Rightarrow> string" where
  "digits n =
     (if n < 10 then [''0123456789'' ! n]
      else digits (n div 10) @ [''0123456789'' ! (n mod 10)])"

declare digits.simps [simp del]

definition Itoa :: "int \<Rightarrow> string" where
  "Itoa i = (if i < 0 then CHR ''-'' # digits (nat (- i)) else digits (nat i))"

section \<open>Paths\<close>

text \<open>
  The program runs on Windows only: \<^verbatim>\<open>filepath.Join\<close> puts a backslash between the
  elements, and both the backslash and the slash separate the elements of a path.
  \<open>Join\<close> and \<open>Dir\<close> are the library functions on clean paths (no \<^verbatim>\<open>.\<close> or \<^verbatim>\<open>..\<close>
  elements, no doubled separator, no volume name), where \<^verbatim>\<open>filepath.Clean\<close> changes
  nothing.
\<close>

definition Separator :: char where
  "Separator = CHR 0x5C"

definition IsPathSeparator :: "char \<Rightarrow> bool" where
  "IsPathSeparator c \<longleftrightarrow> c = CHR 0x5C \<or> c = CHR ''/''"

definition Join :: "path \<Rightarrow> string \<Rightarrow> path" where
  "Join a b = (if a = [] then b else if b = [] then a else a @ [Separator] @ b)"

definition Dir :: "path \<Rightarrow> path" where
  "Dir p =
     (let d = rev (dropWhile IsPathSeparator (dropWhile (\<lambda>c. \<not> IsPathSeparator c) (rev p)))
      in if d \<noteq> [] then d
         else if p \<noteq> [] \<and> IsPathSeparator (hd p) then [Separator] else ''.'')"

text \<open>
  \<^verbatim>\<open>filepath.Ext\<close>: the suffix that starts at the last dot of the last element, empty
  when that element has no dot. \<open>ext_scan\<close> is its loop, from the last byte backwards,
  with the bytes already passed in \<open>acc\<close>.
\<close>

fun ext_scan :: "string \<Rightarrow> string \<Rightarrow> string" where
  "ext_scan [] acc = []"
| "ext_scan (c # cs) acc =
     (if IsPathSeparator c then []
      else if c = CHR ''.'' then c # acc
      else ext_scan cs (c # acc))"

definition Ext :: "path \<Rightarrow> string" where
  "Ext p = ext_scan (rev p) []"

section \<open>The package \<open>conver\<close> and the external collaborators\<close>

text \<open>
  The constants of the package \<^verbatim>\<open>conver\<close> are not among the sources. They are
  parameters of the model: every function that reads one takes the record \<open>k\<close>.
\<close>

record conver =
  M4sSuffix :: string
  AudioSuffix :: string
  VideoSuffix :: string
  PlayUrlSuffix :: string
  XmlSuffix :: string
  AssSuffix :: string
  Mp4Suffix :: string
  VideoInfoJson :: string
  VideoInfoSuffix :: string

text \<open>
  Modelled from the spec: \<^verbatim>\<open>conver.PlayUrl\<close>, the parsed play manifest, whose declaration
  is not among the sources. The spec gives it the numeric identifiers of the selected
  video and audio streams; \<^verbatim>\<open>GetVAId\<close> reads \<^verbatim>\<open>p.Data.Dash.Video[0].ID\<close> and
  \<^verbatim>\<open>p.Data.Dash.Audio[0].ID\<close>, so the record holds the two arrays of identifiers.
\<close>

record PlayUrl =
  DashVideo :: "int list"
  DashAudio :: "int list"

text \<open>
  What the program calls and does not define: the two JSON decoders, the danmaku
  download and conversion, and the muxer process. \<open>Unmarshal\<close> is
  \<^verbatim>\<open>json.Unmarshal\<close> into a \<^verbatim>\<open>conver.PlayUrl\<close>; \<open>NewJson\<close> is
  \<^verbatim>\<open>simplejson.NewJson\<close>, a parsed document being the function from a key to what
  \<^verbatim>\<open>js.Get(key).String()\<close> returns; \<open>ffmpeg path args\<close> gives what \<^verbatim>\<open>cmd.Start\<close> and
  \<^verbatim>\<open>cmd.Wait\<close> return for the process.
\<close>

record env =
  Unmarshal :: "string \<Rightarrow> PlayUrl option"
  NewJson :: "string \<Rightarrow> (string \<Rightarrow> string \<times> error option) option"
  DownloadFile :: "string \<Rightarrow> path \<Rightarrow> error option"
  Xml2ass :: "path \<Rightarrow> path"
  ffmpeg :: "path \<Rightarrow> string list \<Rightarrow> error option \<times> error option"

section \<open>The file system\<close>

text \<open>
  A directory tree as the walks read it: a file, a directory with its entries in the
  order of the listing, or a directory whose listing fails.
\<close>

datatype tree = RegFile string | Directory string "tree list" | Unreadable string error

record DirEntry =
  Name :: string
  IsDir :: bool

fun entry :: "tree \<Rightarrow> DirEntry" where
  "entry (RegFile n) = \<lparr>Name = n, IsDir = False\<rparr>"
| "entry (Directory n ts) = \<lparr>Name = n, IsDir = True\<rparr>"
| "entry (Unreadable n e) = \<lparr>Name = n, IsDir = True\<rparr>"

text \<open>
  The state of the file system: the regular files with their bytes, the directories,
  the paths at which creating a file or a directory fails, the destinations at which
  \<^verbatim>\<open>io.Copy\<close> fails (after having written that many bytes), and the tree that a walk
  from a path reads (\<open>Inl\<close> when \<^verbatim>\<open>os.Lstat\<close> of the root fails).
\<close>

record world =
  files :: "path \<rightharpoonup> string"
  dirs :: "path set"
  denied :: "path set"
  copy_fault :: "path \<rightharpoonup> nat"
  listing :: "path \<Rightarrow> error + tree"

definition Exist :: "world \<Rightarrow> path \<Rightarrow> bool" where
  "Exist w p \<longleftrightarrow> files w p \<noteq> None \<or> p \<in> dirs w"

definition os_Create :: "world \<Rightarrow> path \<Rightarrow> error + world" where
  "os_Create w p =
     (if p = [] \<or> p \<in> denied w \<or> p \<in> dirs w then Inl (PathError ''open'' p)
      else Inr (w\<lparr>files := (files w)(p \<mapsto> [])\<rparr>))"

definition os_Mkdir :: "world \<Rightarrow> path \<Rightarrow> error + world" where
  "os_Mkdir w p =
     (if p = [] \<or> p \<in> denied w \<or> Exist w p \<or> Dir p \<notin> dirs w then Inl (PathError ''mkdir'' p)
      else Inr (w\<lparr>dirs := insert p (dirs w)\<rparr>))"

text \<open>An \<^verbatim>\<open>*os.File\<close> open for reading: the path it was opened at and the read offset.\<close>

record handle =
  hpath :: path
  hpos :: nat

definition remaining :: "world \<Rightarrow> handle \<Rightarrow> string" where
  "remaining w h = (case files w (hpath h) of None \<Rightarrow> [] | Some bs \<Rightarrow> drop (hpos h) bs)"

text \<open>
  \<^verbatim>\<open>io.Copy(dstFile, srcFile)\<close>: everything from the read offset to the end. Reading
  an open directory fails.
\<close>

definition io_Copy :: "world \<Rightarrow> path \<Rightarrow> handle \<Rightarrow> world \<times> error option" where
  "io_Copy w dst h =
     (if files w (hpath h) = None then (w, Some (PathError ''read'' (hpath h)))
      else case copy_fault w dst of
             Some n \<Rightarrow> (w\<lparr>files := (files w)(dst \<mapsto> take n (remaining w h))\<rparr>,
                        Some (PathError ''write'' dst))
           | None \<Rightarrow> (w\<lparr>files := (files w)(dst \<mapsto> remaining w h)\<rparr>, None))"

section \<open>Header repair: \<open>copyFile\<close> and \<open>M4sToAV\<close>\<close>

text \<open>
  \<open>copyFile\<close> opens the source (a regular file or a directory), runs the callback on
  the open file, creates the destination and copies what is left to read. The callback
  reads the state of the file system and returns the file with its new offset.
\<close>

definition copyFile ::
  "world \<Rightarrow> path \<Rightarrow> path \<Rightarrow> (world \<Rightarrow> handle \<Rightarrow> handle) \<Rightarrow> world \<times> error option" where
  "copyFile w src dst fn =
     (if \<not> Exist w src then (w, Some (PathError ''open'' src))
      else
        let srcFile = fn w \<lparr>hpath = src, hpos = 0\<rparr>
        in case os_Create w dst of
             Inl err \<Rightarrow> (w, Some err)
           | Inr w1 \<Rightarrow>
               (case io_Copy w1 dst srcFile of
                  (w2, Some err) \<Rightarrow> (w2, Some err)
                | (w2, None) \<Rightarrow> (w2, None)))"

text \<open>
  The callback of \<open>M4sToAV\<close>. \<^verbatim>\<open>io.ReadAtLeast\<close> fills the 9 zero bytes of \<open>data\<close>
  with what the file has, at most 9 bytes, and moves the offset past them. When
  \<open>data\<close> is not the sentinel the callback returns; otherwise it seeks to offset 9
  (a seek on an open regular file does not fail, so its error branch, which only
  logs, is not a branch of the model).
\<close>

definition M4sToAV_fn :: "world \<Rightarrow> handle \<Rightarrow> handle" where
  "M4sToAV_fn w srcFile =
     (let bs = remaining w srcFile;
          data = take 9 (bs @ replicate 9 (CHR 0x00));
          srcFile = srcFile\<lparr>hpos := hpos srcFile + min 9 (length bs)\<rparr>
      in if data \<noteq> ''000000000'' then srcFile
         else srcFile\<lparr>hpos := 9\<rparr>)"

definition M4sToAV :: "world \<Rightarrow> path \<Rightarrow> path \<Rightarrow> world \<times> error option" where
  "M4sToAV w src dst = copyFile w src dst M4sToAV_fn"

section \<open>Classification: \<open>GetVAId\<close> and \<open>FindM4sFiles\<close>\<close>

definition GetVAId :: "conver \<Rightarrow> env \<Rightarrow> world \<Rightarrow> path \<Rightarrow> abort + string \<times> string" where
  "GetVAId k env w patch =
     (let pu = Join (Dir patch) (PlayUrlSuffix k)
      in case files w pu of
           None \<Rightarrow> Inr ([], [])
         | Some puDate \<Rightarrow>
             (case Unmarshal env puDate of
                None \<Rightarrow> Inr ([], [])
              | Some p \<Rightarrow>
                  (case DashVideo p of
                     [] \<Rightarrow> Inl (Panic ''index out of range [0] with length 0'')
                   | v # _ \<Rightarrow>
                       (case DashAudio p of
                          [] \<Rightarrow> Inl (Panic ''index out of range [0] with length 0'')
                        | a # _ \<Rightarrow> Inr (Itoa v, Itoa a)))))"

text \<open>
  The destination that \<open>FindM4sFiles\<close> computes for the fragment \<open>src\<close> whose entry has
  the name \<open>name\<close>; it stays empty when an identifier is empty.
\<close>

definition FindM4sFiles_dst :: "conver \<Rightarrow> string \<Rightarrow> path \<Rightarrow> string \<Rightarrow> string \<Rightarrow> path" where
  "FindM4sFiles_dst k name src videoId audioId =
     (if videoId \<noteq> [] \<and> audioId \<noteq> [] then
        (if Contains name audioId then ReplaceAll src (M4sSuffix k) (AudioSuffix k)
         else ReplaceAll src (M4sSuffix k) (VideoSuffix k))
      else [])"

definition FindM4sFiles ::
  "conver \<Rightarrow> env \<Rightarrow> world \<Rightarrow> path \<Rightarrow> DirEntry option \<Rightarrow> error option
     \<Rightarrow> abort + world \<times> error option" where
  "FindM4sFiles k env w src info err =
     (case err of
        Some e \<Rightarrow> Inr (w, Some e)
      | None \<Rightarrow>
          (case info of
             None \<Rightarrow> Inl (Panic ''nil pointer dereference'')
           | Some i \<Rightarrow>
               if Ext (Name i) = M4sSuffix k then
                 (case GetVAId k env w src of
                    Inl a \<Rightarrow> Inl a
                  | Inr (videoId, audioId) \<Rightarrow>
                      (case M4sToAV w src (FindM4sFiles_dst k (Name i) src videoId audioId) of
                         (w1, Some e) \<Rightarrow> Inr (w1, Some e)
                       | (w1, None) \<Rightarrow> Inr (w1, None)))
               else Inr (w, None)))"

section \<open>The walks of the library\<close>

text \<open>
  A callback takes its state, the path, the entry (\<open>None\<close> for \<^verbatim>\<open>nil\<close>) and the error
  of the walk, and returns the new state with the error it returns. No callback of this
  program returns \<^verbatim>\<open>SkipDir\<close> or \<^verbatim>\<open>SkipAll\<close>, so every error of a callback ends the walk.

  \<^verbatim>\<open>filepath.WalkDir\<close> calls the callback on a directory, then lists it, and on a failed
  listing calls the callback again with the error. \<^verbatim>\<open>filepath.Walk\<close> lists a directory
  first and calls the callback once, with the error of the listing if there is one.
\<close>

type_synonym 's WalkFunc =
  "'s \<Rightarrow> path \<Rightarrow> DirEntry option \<Rightarrow> error option \<Rightarrow> abort + 's \<times> error option"

fun walkDir :: "'s WalkFunc \<Rightarrow> 's \<Rightarrow> path \<Rightarrow> tree \<Rightarrow> abort + 's \<times> error option"
  and walkDirs :: "'s WalkFunc \<Rightarrow> 's \<Rightarrow> path \<Rightarrow> tree list \<Rightarrow> abort + 's \<times> error option" where
  "walkDir fn s path (RegFile n) = fn s path (Some (entry (RegFile n))) None"
| "walkDir fn s path (Directory n ts) =
     (case fn s path (Some (entry (Directory n ts))) None of
        Inl a \<Rightarrow> Inl a
      | Inr (s1, Some err) \<Rightarrow> Inr (s1, Some err)
      | Inr (s1, None) \<Rightarrow> walkDirs fn s1 path ts)"
| "walkDir fn s path (Unreadable n e) =
     (case fn s path (Some (entry (Unreadable n e))) None of
        Inl a \<Rightarrow> Inl a
      | Inr (s1, Some err) \<Rightarrow> Inr (s1, Some err)
      | Inr (s1, None) \<Rightarrow> fn s1 path (Some (entry (Unreadable n e))) (Some e))"
| "walkDirs fn s path [] = Inr (s, None)"
| "walkDirs fn s path (t # ts) =
     (case walkDir fn s (Join path (Name (entry t))) t of
        Inl a \<Rightarrow> Inl a
      | Inr (s1, Some err) \<Rightarrow> Inr (s1, Some err)
      | Inr (s1, None) \<Rightarrow> walkDirs fn s1 path ts)"

definition WalkDir ::
  "'s WalkFunc \<Rightarrow> 's \<Rightarrow> path \<Rightarrow> error + tree \<Rightarrow> abort + 's \<times> error option" where
  "WalkDir fn s root t =
     (case t of Inl err \<Rightarrow> fn s root None (Some err) | Inr tr \<Rightarrow> walkDir fn s root tr)"

fun walk :: "'s WalkFunc \<Rightarrow> 's \<Rightarrow> path \<Rightarrow> tree \<Rightarrow> abort + 's \<times> error option"
  and walks :: "'s WalkFunc \<Rightarrow> 's \<Rightarrow> path \<Rightarrow> tree list \<Rightarrow> abort + 's \<times> error option" where
  "walk fn s path (RegFile n) = fn s path (Some (entry (RegFile n))) None"
| "walk fn s path (Directory n ts) =
     (case fn s path (Some (entry (Directory n ts))) None of
        Inl a \<Rightarrow> Inl a
      | Inr (s1, Some err1) \<Rightarrow> Inr (s1, Some err1)
      | Inr (s1, None) \<Rightarrow> walks fn s1 path ts)"
| "walk fn s path (Unreadable n e) = fn s path (Some (entry (Unreadable n e))) (Some e)"
| "walks fn s path [] = Inr (s, None)"
| "walks fn s path (t # ts) =
     (case walk fn s (Join path (Name (entry t))) t of
        Inl a \<Rightarrow> Inl a
      | Inr (s1, Some err) \<Rightarrow> Inr (s1, Some err)
      | Inr (s1, None) \<Rightarrow> walks fn s1 path ts)"

definition Walk ::
  "'s WalkFunc \<Rightarrow> 's \<Rightarrow> path \<Rightarrow> error + tree \<Rightarrow> abort + 's \<times> error option" where
  "Walk fn s root t =
     (case t of Inl err \<Rightarrow> fn s root None (Some err) | Inr tr \<Rightarrow> walk fn s root tr)"

section \<open>Finding the repaired streams: \<open>GetAudioAndVideo\<close>\<close>

text \<open>The fields of \<open>Config\<close> that the functions below read (the log file is left out).\<close>

record Config =
  FFMpegPath :: path
  CachePath :: path
  Overlay :: string
  AssPath :: path
  AssOFF :: bool

definition joinUrl :: "conver \<Rightarrow> string \<Rightarrow> string" where
  "joinUrl k cid = ''https://comment.bilibili.com/'' @ cid @ XmlSuffix k"

text \<open>
  The callback of the walk in \<open>GetAudioAndVideo\<close>; its state is the configuration
  (the callback sets \<open>AssPath\<close>) and the variables \<open>video\<close> and \<open>audio\<close>.
\<close>

definition GetAudioAndVideo_fn :: "conver \<Rightarrow> env \<Rightarrow> (Config \<times> path \<times> path) WalkFunc" where
  "GetAudioAndVideo_fn k env s path info err =
     (case s of (c, video, audio) \<Rightarrow>
        (case err of
           Some e \<Rightarrow> Inr (s, Some e)
         | None \<Rightarrow>
             (case info of
                None \<Rightarrow> Inl (Panic ''nil pointer dereference'')
              | Some i \<Rightarrow>
                  if \<not> IsDir i then
                    (let video = (if Contains path (VideoSuffix k) then path else video);
                         audio = (if Contains path (AudioSuffix k) then path else audio)
                     in Inr ((c, video, audio), None))
                  else if \<not> AssOFF c then
                    (let xmlPath = Join path (Name i @ XmlSuffix k)
                     in case DownloadFile env (joinUrl k (Name i)) xmlPath of
                          Some e \<Rightarrow> Inr (s, None)
                        | None \<Rightarrow> Inr ((c\<lparr>AssPath := Xml2ass env xmlPath\<rparr>, video, audio), None))
                  else Inr (s, None))))"

text \<open>\<open>t\<close> is the tree that the walk from \<open>cachePath\<close> reads.\<close>

definition GetAudioAndVideo ::
  "conver \<Rightarrow> env \<Rightarrow> Config \<Rightarrow> error + tree \<Rightarrow> path
     \<Rightarrow> abort + Config \<times> path \<times> path \<times> error option" where
  "GetAudioAndVideo k env c t cachePath =
     (case Walk (GetAudioAndVideo_fn k env) (c, [], []) cachePath t of
        Inl a \<Rightarrow> Inl a
      | Inr ((c1, video, audio), Some err) \<Rightarrow> Inr (c1, [], [], Some err)
      | Inr ((c1, video, audio), None) \<Rightarrow> Inr (c1, video, audio, None))"

section \<open>File names: \<open>Filter\<close>\<close>

text \<open>
  The eleven replacements of \<open>Filter\<close>, in the order of the source, and then the trim.
  The full-width characters are their UTF-8 bytes: U+300A and U+300B (the double angle
  brackets), U+3010 and U+3011 (the lenticular brackets), U+FF1A (the full-width colon).
\<close>

definition Filter_replace :: "string \<Rightarrow> string" where
  "Filter_replace name =
     (let name = ReplaceAll name ''<'' [CHR 0xE3, CHR 0x80, CHR 0x8A];
          name = ReplaceAll name ''>'' [CHR 0xE3, CHR 0x80, CHR 0x8B];
          name = ReplaceAll name [CHR 0x5C] ''#'';
          name = ReplaceAll name [CHR 0x22] [CHR 0x27];
          name = ReplaceAll name ''/'' ''_'';
          name = ReplaceAll name ''|'' ''_'';
          name = ReplaceAll name ''?'' ''_'';
          name = ReplaceAll name ''*'' ''_'';
          name = ReplaceAll name [CHR 0xE3, CHR 0x80, CHR 0x90] ''['';
          name = ReplaceAll name [CHR 0xE3, CHR 0x80, CHR 0x91] '']'';
          name = ReplaceAll name '':'' [CHR 0xEF, CHR 0xBC, CHR 0x9A]
      in name)"

definition Filter :: "string \<Rightarrow> error option \<Rightarrow> string" where
  "Filter name err = TrimSpace (Filter_replace name)"

text \<open>The eleven characters that \<open>Filter\<close> replaces.\<close>

definition forbidden :: "string list" where
  "forbidden =
     [''<'', ''>'', [CHR 0x5C], [CHR 0x22], ''/'', ''|'', ''?'', ''*'',
      [CHR 0xE3, CHR 0x80, CHR 0x90], [CHR 0xE3, CHR 0x80, CHR 0x91], '':'']"

section \<open>Muxing: \<open>Composition\<close> and the loop of \<open>main\<close>\<close>

text \<open>
  The state of the loop over the session directories: the configuration, the file
  system, the variables \<open>outputDir\<close>, \<open>outputFiles\<close> and \<open>skipFilePaths\<close> of \<open>main\<close>,
  and the muxer processes started so far, each with its arguments and with what
  \<^verbatim>\<open>cmd.Wait\<close> returned. What the muxer and the danmaku download write to the disk is
  outside the model.
\<close>

record run =
  cfg :: Config
  fs :: world
  outputDir :: path
  outputFiles :: "path list"
  skipFilePaths :: "path list"
  muxed :: "(string list \<times> error option) list"

definition Composition ::
  "conver \<Rightarrow> env \<Rightarrow> run \<Rightarrow> path \<Rightarrow> path \<Rightarrow> path \<Rightarrow> abort + run \<times> error option" where
  "Composition k env st videoFile audioFile outputFile =
     (let args = [''-i'', videoFile, ''-i'', audioFile, ''-c:v'', ''copy'', ''-c:a'', ''copy'',
                  ''-strict'', ''experimental'', Overlay (cfg st), outputFile,
                  ''-hide_banner'', ''-stats'']
      in case ffmpeg env (FFMpegPath (cfg st)) args of
           (Some err, waited) \<Rightarrow> Inl (Exit 1)
         | (None, waited) \<Rightarrow>
             let assFile = ReplaceAll outputFile (Ext outputFile) (AssSuffix k);
                 w1 = fst (copyFile (fs st) (AssPath (cfg st)) assFile (\<lambda>w f. f))
             in Inr (st\<lparr>fs := w1, muxed := muxed st @ [(args, waited)]\<rparr>, None))"

text \<open>
  The body of the loop of \<open>main\<close> for the session directory \<open>v\<close>. Every \<^verbatim>\<open>continue\<close>
  and the end of the body return the state for the next session; \<^verbatim>\<open>wait()\<close> ends the
  process with \<^verbatim>\<open>os.Exit(0)\<close>.
\<close>

definition session :: "conver \<Rightarrow> env \<Rightarrow> run \<Rightarrow> path \<Rightarrow> abort + run" where
  "session k env st v =
     (case GetAudioAndVideo k env (cfg st) (listing (fs st) v) v of
        Inl a \<Rightarrow> Inl a
      | Inr (c, video, audio, Some e) \<Rightarrow> Inr (st\<lparr>cfg := c\<rparr>)
      | Inr (c, video, audio, None) \<Rightarrow>
          let st = st\<lparr>cfg := c\<rparr>;
              info = Join v (VideoInfoJson k);
              info = (if \<not> Exist (fs st) info then Join v (VideoInfoSuffix k) else info)
          in case files (fs st) info of
               None \<Rightarrow> Inr st
             | Some infoStr \<Rightarrow>
                 (case NewJson env infoStr of
                    None \<Rightarrow> Inr st
                  | Some js \<Rightarrow>
                      let groupTitle = case_prod Filter (js ''groupTitle'');
                          title = case_prod Filter (js ''title'');
                          uname = case_prod Filter (js ''uname'');
                          status = case_prod Filter (js ''status'')
                      in if status \<noteq> ''completed'' then
                           Inr (st\<lparr>skipFilePaths := skipFilePaths st @ [v]\<rparr>)
                         else
                           let outputDir = Join (Dir v) ''output'';
                               w1 = (if \<not> Exist (fs st) outputDir then
                                       (case os_Mkdir (fs st) outputDir of
                                          Inl err \<Rightarrow> fs st
                                        | Inr w \<Rightarrow> w)
                                     else fs st);
                               st = st\<lparr>fs := w1, outputDir := outputDir\<rparr>;
                               groupDir = Join outputDir (groupTitle @ ''-'' @ uname);
                               made = (if \<not> Exist w1 groupDir then os_Mkdir w1 groupDir
                                       else Inr w1)
                           in case made of
                                Inl err \<Rightarrow> Inl (Exit 0)
                              | Inr w2 \<Rightarrow>
                                  let st = st\<lparr>fs := w2\<rparr>;
                                      outputFile = Join groupDir (title @ Mp4Suffix k)
                                  in case Composition k env st video audio outputFile of
                                       Inl a \<Rightarrow> Inl a
                                     | Inr (st1, Some er) \<Rightarrow> Inr st1
                                     | Inr (st1, None) \<Rightarrow>
                                         Inr (st1\<lparr>outputFiles :=
                                                     outputFiles st1 @ [outputFile]\<rparr>)))"

fun main_loop :: "conver \<Rightarrow> env \<Rightarrow> run \<Rightarrow> path list \<Rightarrow> abort + run" where
  "main_loop k env st [] = Inr st"
| "main_loop k env st (v # vs) =
     (case session k env st v of
        Inl a \<Rightarrow> Inl a
      | Inr st1 \<Rightarrow> main_loop k env st1 vs)"

section \<open>What the spec says, and the traversal order\<close>

text \<open>
  Following the spec: the destination of a fragment is its path with the extension
  replaced and the rest of the path unchanged.
\<close>

definition replace_ext :: "path \<Rightarrow> string \<Rightarrow> path" where
  "replace_ext p new = take (length p - length (Ext p)) p @ new"

text \<open>
  The calls that \<^verbatim>\<open>filepath.WalkDir\<close> makes on a tree, in order, when no call returns an
  error: the path, the entry and the error of each call to the callback. A directory
  comes before its entries, and a directory whose listing fails is called twice, the
  second time with the error of the listing.
\<close>

type_synonym visit = "path \<times> DirEntry \<times> error option"

fun visits :: "path \<Rightarrow> tree \<Rightarrow> visit list"
  and visitss :: "path \<Rightarrow> tree list \<Rightarrow> visit list" where
  "visits p (RegFile n) = [(p, entry (RegFile n), None)]"
| "visits p (Directory n ts) = (p, entry (Directory n ts), None) # visitss p ts"
| "visits p (Unreadable n e) =
     [(p, entry (Unreadable n e), None), (p, entry (Unreadable n e), Some e)]"
| "visitss p [] = []"
| "visitss p (t # ts) = visits (Join p (Name (entry t))) t @ visitss p ts"

text \<open>
  Making the calls of a list one after the other, up to the first one that returns an
  error (or does not return): its result is the result, and the calls after it are not
  made.
\<close>

fun first_error :: "'s WalkFunc \<Rightarrow> 's \<Rightarrow> visit list \<Rightarrow> abort + 's \<times> error option" where
  "first_error fn s [] = Inr (s, None)"
| "first_error fn s ((p, d, x) # vs) =
     (case fn s p (Some d) x of
        Inl a \<Rightarrow> Inl a
      | Inr (s1, Some err) \<Rightarrow> Inr (s1, Some err)
      | Inr (s1, None) \<Rightarrow> first_error fn s1 vs)"

text \<open>
  The paths of the files under a tree in the order in which a walk from \<open>p\<close> visits
  them, and the trees in which every listing succeeds.
\<close>

fun files_of :: "path \<Rightarrow> tree \<Rightarrow> path list"
  and files_ofs :: "path \<Rightarrow> tree list \<Rightarrow> path list" where
  "files_of p (RegFile n) = [p]"
| "files_of p (Directory n ts) = files_ofs p ts"
| "files_of p (Unreadable n e) = []"
| "files_ofs p [] = []"
| "files_ofs p (t # ts) = files_of (Join p (Name (entry t))) t @ files_ofs p ts"

fun readable :: "tree \<Rightarrow> bool"
  and readables :: "tree list \<Rightarrow> bool" where
  "readable (RegFile n) = True"
| "readable (Directory n ts) = readables ts"
| "readable (Unreadable n e) = False"
| "readables [] = True"
| "readables (t # ts) = (readable t \<and> readables ts)"

text \<open>
  The first path in traversal order that contains the suffix, which is the one that
  the spec selects, and the last one. Both are empty when no path contains it.
\<close>

definition first_match :: "string \<Rightarrow> path list \<Rightarrow> path" where
  "first_match suf ps =
     (let ms = filter (\<lambda>p. Contains p suf) ps in if ms = [] then [] else hd ms)"

definition last_match :: "string \<Rightarrow> path list \<Rightarrow> path" where
  "last_match suf ps =
     (let ms = filter (\<lambda>p. Contains p suf) ps in if ms = [] then [] else last ms)"

text \<open>One step of the two assignments in the callback of \<open>GetAudioAndVideo\<close>.\<close>

definition pick :: "string \<Rightarrow> path \<Rightarrow> path \<Rightarrow> path" where
  "pick suf v p = (if Contains p suf then p else v)"

section \<open>A cache tree to run the functions on\<close>

text \<open>
  Values for the constants of \<^verbatim>\<open>conver\<close>: the fragment extension, the repaired
  streams, the play manifest and the container as the spec writes them, the others
  chosen freely.
\<close>

definition spec_conver :: conver where
  "spec_conver =
     \<lparr>M4sSuffix = ''.m4s'', AudioSuffix = ''.audio'', VideoSuffix = ''.video'',
      PlayUrlSuffix = ''.playurl'', XmlSuffix = ''.xml'', AssSuffix = ''.ass'',
      Mp4Suffix = ''.mp4'', VideoInfoJson = ''videoInfo.json'',
      VideoInfoSuffix = ''.videoInfo''\<rparr>"

text \<open>
  Stand-ins for the decoders and the collaborators: a play manifest is read as its list
  of identifiers, a session manifest as its status (every other key has its own name as
  value), no danmaku file can be downloaded, and the muxer starts. In \<open>env0\<close> it
  exits with status 0, in \<open>env1\<close> with status 1.
\<close>

definition env0 :: env where
  "env0 =
     \<lparr>Unmarshal = (\<lambda>s. if s = ''100 200'' then Some \<lparr>DashVideo = [100], DashAudio = [200]\<rparr>
                       else if s = ''100'' then Some \<lparr>DashVideo = [100], DashAudio = []\<rparr>
                       else None),
      NewJson = (\<lambda>s. Some (\<lambda>key. if key = ''status'' then (s, None) else (key, None))),
      DownloadFile = (\<lambda>url p. Some (OtherError ''offline'')),
      Xml2ass = (\<lambda>p. p),
      ffmpeg = (\<lambda>p args. (None, None))\<rparr>"

definition env1 :: env where
  "env1 = env0\<lparr>ffmpeg := (\<lambda>p args. (None, Some (OtherError ''exit status 1'')))\<rparr>"

definition c0 :: Config where
  "c0 = \<lparr>FFMpegPath = ''ffmpeg.exe'', CachePath = ''cache'', Overlay = ''-n'', AssPath = [],
         AssOFF = False\<rparr>"

text \<open>
  The sessions: the video destination of \<open>s1\<close> cannot be created; \<open>s2\<close> is
  complete, not yet repaired, and its second fragment does not start with the
  sentinel; \<open>s3\<close> holds two repaired
  streams of each kind; \<open>s4\<close> is complete and repaired; the status of \<open>s5\<close> is
  \<open>completed\<close> followed by a space; \<open>s6\<close> is still downloading; the play manifest of
  \<open>s7\<close> has no audio stream; \<open>s8\<close> is complete and holds its manifest only, no
  fragment and no repaired stream; the name of the audio fragment of \<open>s9\<close> ends with
  the fragment suffix twice.
\<close>

definition s1_tree :: tree where
  "s1_tree = Directory ''s1'' [RegFile ''.playurl'', RegFile ''100.m4s'', RegFile ''200.m4s'']"

definition s2_tree :: tree where
  "s2_tree = Directory ''s2'' [RegFile ''.playurl'', RegFile ''100.m4s'', RegFile ''200.m4s'',
                               RegFile ''videoInfo.json'']"

definition s3_tree :: tree where
  "s3_tree = Directory ''s3'' [RegFile ''100.video'', RegFile ''101.video'',
                               RegFile ''200.audio'', RegFile ''201.audio'']"

definition s8_tree :: tree where
  "s8_tree = Directory ''s8'' [RegFile ''videoInfo.json'']"

definition s9_tree :: tree where
  "s9_tree = Directory ''s9'' [RegFile ''.playurl'', RegFile ''200.m4s.m4s'']"

definition repaired :: "string \<Rightarrow> tree" where
  "repaired n = Directory n [RegFile ''100.video'', RegFile ''200.audio'',
                             RegFile ''videoInfo.json'']"

definition w0 :: world where
  "w0 =
     \<lparr>files = [Join (Join ''cache'' ''s1'') ''.playurl'' \<mapsto> ''100 200'',
               Join (Join ''cache'' ''s1'') ''100.m4s'' \<mapsto> ''000000000AAA'',
               Join (Join ''cache'' ''s1'') ''200.m4s'' \<mapsto> ''000000000DDD'',
               Join (Join ''cache'' ''s2'') ''.playurl'' \<mapsto> ''100 200'',
               Join (Join ''cache'' ''s2'') ''100.m4s'' \<mapsto> ''000000000BBB'',
               Join (Join ''cache'' ''s2'') ''200.m4s'' \<mapsto> ''111111111CCC'',
               Join (Join ''cache'' ''s2'') ''videoInfo.json'' \<mapsto> ''completed'',
               Join (Join ''cache'' ''s4'') ''videoInfo.json'' \<mapsto> ''completed'',
               Join (Join ''cache'' ''s5'') ''videoInfo.json'' \<mapsto> ''completed '',
               Join (Join ''cache'' ''s6'') ''videoInfo.json'' \<mapsto> ''downloading'',
               Join (Join ''cache'' ''s7'') ''.playurl'' \<mapsto> ''100'',
               Join (Join ''cache'' ''s8'') ''videoInfo.json'' \<mapsto> ''completed'',
               Join (Join ''cache'' ''s9'') ''.playurl'' \<mapsto> ''100 200'',
               Join (Join ''cache'' ''s9'') ''200.m4s.m4s'' \<mapsto> ''000000000EEE''],
      dirs = {''.'', ''cache'', Join ''cache'' ''s1'', Join ''cache'' ''s2'',
              Join ''cache'' ''s4'', Join ''cache'' ''s5'', Join ''cache'' ''s6'',
              Join ''cache'' ''s7'', Join ''cache'' ''s8'', Join ''cache'' ''s9''},
      denied = {Join (Join ''cache'' ''s1'') ''100.video''},
      copy_fault = Map.empty,
      listing = (\<lambda>p. if p = Join ''cache'' ''s2'' then Inr s2_tree
                      else if p = Join ''cache'' ''s4'' then Inr (repaired ''s4'')
                      else if p = Join ''cache'' ''s5'' then Inr (repaired ''s5'')
                      else if p = Join ''cache'' ''s6'' then Inr (repaired ''s6'')
                      else if p = Join ''cache'' ''s8'' then Inr s8_tree
                      else Inl (PathError ''lstat'' p))\<rparr>"

definition st0 :: run where
  "st0 = \<lparr>cfg = c0, fs = w0, outputDir = [], outputFiles = [], skipFilePaths = [], muxed = []\<rparr>"

section \<open>Properties of the string functions\<close>

lemma Contains_sublist: "Contains s p \<longleftrightarrow> sublist p s"
  by (induction s) (auto simp: sublist_Cons_right)

lemma ReplaceAll_Nil: "p \<noteq> [] \<Longrightarrow> ReplaceAll [] p r = []"
  by (cases p) simp_all

lemma ReplaceAll_match:
  "p \<noteq> [] \<Longrightarrow> prefix p s \<Longrightarrow> ReplaceAll s p r = r @ ReplaceAll (drop (length p) s) p r"
  by (cases p; cases s) simp_all

lemma ReplaceAll_skip:
  "p \<noteq> [] \<Longrightarrow> \<not> prefix p (c # cs) \<Longrightarrow> ReplaceAll (c # cs) p r = c # ReplaceAll cs p r"
  by (cases p) auto

lemma prefix_disjoint_append:
  "prefix q (r @ x) \<Longrightarrow> set q \<inter> set r = {} \<Longrightarrow> r \<noteq> [] \<Longrightarrow> q = []"
  by (cases q; cases r) auto

lemma ReplaceAll_prefix:
  assumes "p \<noteq> []" "r \<noteq> []" "set q \<inter> set r = {}"
  shows "prefix q (ReplaceAll s p r) \<Longrightarrow> prefix q s"
  using assms(3)
proof (induction s arbitrary: q rule: measure_induct_rule[of length])
  case (less s)
  show ?case
  proof (cases s)
    case Nil
    with less.prems assms(1) show ?thesis by (simp add: ReplaceAll_Nil)
  next
    case (Cons c cs)
    show ?thesis
    proof (cases "prefix p s")
      case True
      with less.prems(1) assms(1) have "prefix q (r @ ReplaceAll (drop (length p) s) p r)"
        by (simp add: ReplaceAll_match)
      then have "q = []" using less.prems(2) assms(2) by (rule prefix_disjoint_append)
      then show ?thesis by simp
    next
      case False
      with less.prems(1) assms(1) Cons have pq: "prefix q (c # ReplaceAll cs p r)"
        by (simp add: ReplaceAll_skip)
      show ?thesis
      proof (cases q)
        case Nil
        then show ?thesis by simp
      next
        case (Cons x q')
        with pq have "x = c" and "prefix q' (ReplaceAll cs p r)" by simp_all
        moreover from Cons less.prems(2) have "set q' \<inter> set r = {}" by auto
        moreover from \<open>s = c # cs\<close> have "length cs < length s" by simp
        ultimately have "prefix q' cs" using less.IH by blast
        with \<open>x = c\<close> Cons \<open>s = c # cs\<close> show ?thesis by simp
      qed
    qed
  qed
qed

lemma sublist_skip_disjoint:
  "sublist q (r @ x) \<Longrightarrow> q \<noteq> [] \<Longrightarrow> set q \<inter> set r = {} \<Longrightarrow> sublist q x"
proof (induction r)
  case Nil
  then show ?case by simp
next
  case (Cons b r)
  from Cons.prems have "\<not> prefix q (b # r @ x)"
    by (cases q) auto
  with Cons.prems have "sublist q (r @ x)" by (simp add: sublist_Cons_right)
  with Cons show ?case by auto
qed

lemma ReplaceAll_keeps_absent:
  assumes "p \<noteq> []" "r \<noteq> []" "set q \<inter> set r = {}"
  shows "\<not> sublist q s \<Longrightarrow> \<not> sublist q (ReplaceAll s p r)"
proof (induction s rule: measure_induct_rule[of length])
  case (less s)
  from less.prems have qne: "q \<noteq> []" by auto
  show ?case
  proof (cases s)
    case Nil
    with less.prems assms(1) show ?thesis by (simp add: ReplaceAll_Nil)
  next
    case (Cons c cs)
    show ?thesis
    proof (cases "prefix p s")
      case True
      have "sublist (drop (length p) s) s" by (rule sublist_drop)
      with less.prems have "\<not> sublist q (drop (length p) s)"
        using sublist_order.order_trans by blast
      moreover have "length (drop (length p) s) < length s"
        using assms(1) Cons by simp
      ultimately have "\<not> sublist q (ReplaceAll (drop (length p) s) p r)"
        using less.IH by blast
      then have "\<not> sublist q (r @ ReplaceAll (drop (length p) s) p r)"
        using sublist_skip_disjoint[OF _ qne assms(3)] by blast
      with True assms(1) show ?thesis by (simp add: ReplaceAll_match)
    next
      case False
      from less.prems Cons have "\<not> sublist q cs" and np: "\<not> prefix q (c # cs)"
        by (auto simp: sublist_Cons_right)
      moreover from Cons have "length cs < length s" by simp
      ultimately have a: "\<not> sublist q (ReplaceAll cs p r)"
        using less.IH by blast
      have eq: "ReplaceAll s p r = c # ReplaceAll cs p r"
        using False Cons assms(1) by (simp add: ReplaceAll_skip)
      have "\<not> prefix q (ReplaceAll s p r)"
        using ReplaceAll_prefix[OF assms] np Cons by blast
      with a eq show ?thesis by (simp add: sublist_Cons_right)
    qed
  qed
qed

lemma ReplaceAll_removes:
  assumes "p \<noteq> []" "r \<noteq> []" "set p \<inter> set r = {}"
  shows "\<not> sublist p (ReplaceAll s p r)"
proof (induction s rule: measure_induct_rule[of length])
  case (less s)
  show ?case
  proof (cases s)
    case Nil
    with assms(1) show ?thesis by (simp add: ReplaceAll_Nil)
  next
    case (Cons c cs)
    show ?thesis
    proof (cases "prefix p s")
      case True
      have "length (drop (length p) s) < length s"
        using assms(1) Cons by simp
      then have "\<not> sublist p (ReplaceAll (drop (length p) s) p r)"
        using less.IH by blast
      then have "\<not> sublist p (r @ ReplaceAll (drop (length p) s) p r)"
        using sublist_skip_disjoint[OF _ assms(1) assms(3)] by blast
      with True assms(1) show ?thesis by (simp add: ReplaceAll_match)
    next
      case False
      from Cons have "length cs < length s" by simp
      then have a: "\<not> sublist p (ReplaceAll cs p r)"
        using less.IH by blast
      have eq: "ReplaceAll s p r = c # ReplaceAll cs p r"
        using False Cons assms(1) by (simp add: ReplaceAll_skip)
      have "\<not> prefix p (ReplaceAll s p r)"
        using ReplaceAll_prefix[OF assms] False by blast
      with a eq show ?thesis by (simp add: sublist_Cons_right)
    qed
  qed
qed

lemma ReplaceAll_absent:
  "p \<noteq> [] \<Longrightarrow> \<not> sublist p s \<Longrightarrow> ReplaceAll s p r = s"
proof (induction s)
  case Nil
  then show ?case by (simp add: ReplaceAll_Nil)
next
  case (Cons c cs)
  from Cons.prems have "\<not> prefix p (c # cs)" and "\<not> sublist p cs"
    by (auto simp: sublist_Cons_right)
  with Cons show ?case by (simp add: ReplaceAll_skip)
qed


lemma space_encodings_nonempty: "e \<in> set space_encodings \<Longrightarrow> e \<noteq> []"
  by (auto simp: space_encodings_def)

lemma leading_space_0_iff:
  "leading_space s = 0 \<longleftrightarrow> (\<forall>e \<in> set space_encodings. \<not> prefix e s)"
  unfolding leading_space_def
  by (auto split: option.splits simp: find_None_iff find_Some_iff
      dest: space_encodings_nonempty nth_mem)

lemma trailing_space_0_iff:
  "trailing_space s = 0 \<longleftrightarrow> (\<forall>e \<in> set space_encodings. \<not> suffix e s)"
  unfolding trailing_space_def
  by (auto split: option.splits simp: find_None_iff find_Some_iff
      dest: space_encodings_nonempty nth_mem)

lemma TrimLeftSpace_suffix: "suffix (TrimLeftSpace s) s"
proof (induction s rule: TrimLeftSpace.induct)
  case (1 s)
  show ?case
  proof (cases "leading_space s = 0")
    case True
    then show ?thesis by (simp add: TrimLeftSpace.simps [of s])
  next
    case False
    with 1 have "suffix (TrimLeftSpace s) (drop (leading_space s) s)"
      by (simp add: TrimLeftSpace.simps [of s])
    then show ?thesis using suffix_drop suffix_order.order_trans by blast
  qed
qed

lemma TrimRightSpace_prefix: "prefix (TrimRightSpace s) s"
proof (induction s rule: TrimRightSpace.induct)
  case (1 s)
  show ?case
  proof (cases "trailing_space s = 0")
    case True
    then show ?thesis by (simp add: TrimRightSpace.simps [of s])
  next
    case False
    with 1 have "prefix (TrimRightSpace s) (take (length s - trailing_space s) s)"
      by (simp add: TrimRightSpace.simps [of s])
    then show ?thesis using take_is_prefix prefix_order.order_trans by blast
  qed
qed

lemma TrimLeftSpace_done: "leading_space (TrimLeftSpace s) = 0"
  by (induction s rule: TrimLeftSpace.induct) (metis TrimLeftSpace.simps)

lemma TrimRightSpace_done: "trailing_space (TrimRightSpace s) = 0"
  by (induction s rule: TrimRightSpace.induct) (metis TrimRightSpace.simps)

lemma TrimSpace_sublist: "sublist (TrimSpace s) s"
  unfolding TrimSpace_def
  using TrimRightSpace_prefix[of "TrimLeftSpace s"] TrimLeftSpace_suffix[of s]
  by (meson prefix_imp_sublist suffix_imp_sublist sublist_order.order_trans)

lemma TrimSpace_idem: "TrimSpace (TrimSpace s) = TrimSpace s"
proof -
  let ?t = "TrimSpace s"
  have "prefix ?t (TrimLeftSpace s)"
    unfolding TrimSpace_def by (rule TrimRightSpace_prefix)
  then have "leading_space ?t = 0"
    using TrimLeftSpace_done[of s] prefix_order.order_trans
    unfolding leading_space_0_iff by blast
  then have l: "TrimLeftSpace ?t = ?t" by (simp add: TrimLeftSpace.simps [of ?t])
  have "trailing_space ?t = 0"
    unfolding TrimSpace_def by (rule TrimRightSpace_done)
  then have "TrimRightSpace ?t = ?t" by (simp add: TrimRightSpace.simps [of ?t])
  with l show ?thesis by (simp add: TrimSpace_def)
qed

lemma Filter_replace_clean_all:
  "list_all (\<lambda>p. \<not> sublist p (Filter_replace name)) forbidden"
  unfolding forbidden_def list.pred_inject Filter_replace_def Let_def
  by (intro conjI ReplaceAll_removes ReplaceAll_keeps_absent; simp)

lemma Filter_replace_clean:
  "p \<in> set forbidden \<Longrightarrow> \<not> sublist p (Filter_replace name)"
  using Filter_replace_clean_all[of name] by (simp add: list_all_iff)

lemma Filter_replace_fixed:
  assumes "\<forall>p \<in> set forbidden. \<not> sublist p name"
  shows "Filter_replace name = name"
proof -
  from assms have "list_all (\<lambda>p. \<not> sublist p name) forbidden"
    by (simp add: list_all_iff)
  then show ?thesis
    unfolding forbidden_def list.pred_inject Filter_replace_def Let_def
    by (simp add: ReplaceAll_absent)
qed

text \<open>
  C8. \<open>Filter\<close> is idempotent, and its result contains none of the eleven characters
  that it replaces, for every byte string and whatever the error arguments are.
\<close>

theorem Filter_idempotent_clean:
  "Filter (Filter s e) e' = Filter s e \<and> (\<forall>p \<in> set forbidden. \<not> Contains (Filter s e) p)"
proof -
  have clean: "\<forall>p \<in> set forbidden. \<not> sublist p (Filter s e)"
    unfolding Filter_def
    using Filter_replace_clean TrimSpace_sublist sublist_order.order_trans by blast
  then have "Filter_replace (Filter s e) = Filter s e" by (rule Filter_replace_fixed)
  then have "Filter (Filter s e) e' = TrimSpace (Filter s e)" by (simp add: Filter_def)
  also have "\<dots> = Filter s e" by (simp add: Filter_def TrimSpace_idem)
  finally show ?thesis using clean by (simp add: Contains_sublist)
qed

theorem Filter_idempotent_clean_witness:
  "Filter (Filter '' a<b:c|d? '' None) None = Filter '' a<b:c|d? '' None
   \<and> ''<'' \<in> set forbidden \<and> \<not> Contains (Filter '' a<b:c|d? '' None) ''<''"
  using Filter_idempotent_clean [of "'' a<b:c|d? ''" None None]
  by (simp add: forbidden_def)

section \<open>Header repair\<close>

lemma sentinel_length: "take 9 bs = ''000000000'' \<Longrightarrow> 9 \<le> length bs"
proof (rule ccontr)
  assume a: "take 9 bs = ''000000000''" and "\<not> 9 \<le> length bs"
  then have "length (take 9 bs) < 9" by simp
  with a show False by simp
qed

lemma M4sToAV_fn_sentinel:
  assumes "files w src = Some bs" "take 9 bs = ''000000000''"
  shows "M4sToAV_fn w \<lparr>hpath = src, hpos = 0\<rparr> = \<lparr>hpath = src, hpos = 9\<rparr>"
proof -
  from assms(2) have "9 \<le> length bs" by (rule sentinel_length)
  then have "take 9 (bs @ replicate 9 (CHR 0x00)) = take 9 bs" by simp
  with assms show ?thesis by (simp add: M4sToAV_fn_def remaining_def Let_def)
qed

lemmas repair_defs = M4sToAV_def copyFile_def Exist_def os_Create_def io_Copy_def remaining_def
  M4sToAV_fn_def Let_def

lemmas path_defs = Join_def Dir_def Ext_def IsPathSeparator_def Separator_def

text \<open>
  C1. The claim: a fragment that does not start with the sentinel is skipped, nothing
  is written. The code: the callback returns, and \<open>copyFile\<close> goes on. The second
  fragment of \<open>s2\<close> starts with nine \<open>1\<close>; \<open>M4sToAV\<close> returns no error, and has
  created the destination with the bytes from offset 9 on.
\<close>

theorem M4sToAV_mismatch_still_copies:
  "M4sToAV w0 (Join (Join ''cache'' ''s2'') ''200.m4s'') (Join (Join ''cache'' ''s2'') ''200.audio'')
   = (w0\<lparr>files := (files w0)(Join (Join ''cache'' ''s2'') ''200.audio'' \<mapsto> ''CCC'')\<rparr>, None)"
  by (simp add: repair_defs path_defs w0_def)

text \<open>
  C6. A fragment that starts with the sentinel, repaired to a destination other than
  itself that can be created and written: \<open>M4sToAV\<close> returns no error, the
  destination holds the bytes of the source from offset 9 on, whatever it held before,
  its length is that of the source minus 9, nothing else changes, and a second run
  returns the same file system.
\<close>

theorem M4sToAV_repairs:
  assumes "files w src = Some bs" and "take 9 bs = ''000000000''"
    and "dst \<noteq> src" and "dst \<noteq> []" and "dst \<notin> denied w" and "dst \<notin> dirs w"
    and "copy_fault w dst = None"
  shows "M4sToAV w src dst = (w\<lparr>files := (files w)(dst \<mapsto> drop 9 bs)\<rparr>, None)
    \<and> length (drop 9 bs) = length bs - 9
    \<and> M4sToAV (w\<lparr>files := (files w)(dst \<mapsto> drop 9 bs)\<rparr>) src dst
        = (w\<lparr>files := (files w)(dst \<mapsto> drop 9 bs)\<rparr>, None)"
proof -
  have run: "M4sToAV u src dst = (u\<lparr>files := (files u)(dst \<mapsto> drop 9 bs)\<rparr>, None)"
    if "files u src = Some bs" "dst \<notin> denied u" "dst \<notin> dirs u" "copy_fault u dst = None" for u
    using that assms(2,3,4) M4sToAV_fn_sentinel[OF that(1) assms(2)]
    by (simp add: M4sToAV_def copyFile_def Exist_def os_Create_def io_Copy_def remaining_def)
  let ?w = "w\<lparr>files := (files w)(dst \<mapsto> drop 9 bs)\<rparr>"
  have "M4sToAV ?w src dst = (?w\<lparr>files := (files ?w)(dst \<mapsto> drop 9 bs)\<rparr>, None)"
    using assms by (intro run) simp_all
  then show ?thesis using run[OF assms(1,5,6,7)] by simp
qed

theorem M4sToAV_repairs_witness:
  "files w0 (Join (Join ''cache'' ''s2'') ''100.m4s'') = Some ''000000000BBB''
   \<and> M4sToAV w0 (Join (Join ''cache'' ''s2'') ''100.m4s'') (Join (Join ''cache'' ''s2'') ''100.video'')
     = (w0\<lparr>files := (files w0)(Join (Join ''cache'' ''s2'') ''100.video'' \<mapsto> ''BBB'')\<rparr>, None)"
  using M4sToAV_repairs [of w0 "Join (Join ''cache'' ''s2'') ''100.m4s''" "''000000000BBB''"
      "Join (Join ''cache'' ''s2'') ''100.video''"]
  by (simp add: w0_def path_defs)

section \<open>Classification\<close>

text \<open>
  C10. When the play manifest is read and decoded and its array of video identifiers
  or its array of audio identifiers is empty, \<open>GetVAId\<close> panics on the index 0; it
  returns a pair of empty identifiers only when the file cannot be read or decoded.
\<close>

theorem GetVAId_empty_array_panics:
  assumes "files w (Join (Dir patch) (PlayUrlSuffix k)) = Some puDate"
    and "Unmarshal env puDate = Some p"
    and "DashVideo p = [] \<or> DashAudio p = []"
  shows "GetVAId k env w patch = Inl (Panic ''index out of range [0] with length 0'')"
  using assms by (auto simp: GetVAId_def split: list.splits)

theorem GetVAId_empty_array_panics_witness:
  "Unmarshal env0 ''100'' = Some \<lparr>DashVideo = [100], DashAudio = []\<rparr>
   \<and> GetVAId spec_conver env0 w0 (Join (Join ''cache'' ''s7'') ''100.m4s'')
     = Inl (Panic ''index out of range [0] with length 0'')"
  using GetVAId_empty_array_panics [of w0 "Join (Join ''cache'' ''s7'') ''100.m4s''" spec_conver
      "''100''" env0 "\<lparr>DashVideo = [100], DashAudio = []\<rparr>"]
  by (simp add: w0_def env0_def spec_conver_def path_defs)

lemma only_at_end:
  assumes "p \<noteq> []" and "\<not> Contains (butlast (stem @ p)) p" and "i < length stem"
  shows "\<not> prefix p (drop i (stem @ p))"
proof
  assume "prefix p (drop i (stem @ p))"
  then obtain rest where rest: "drop i (stem @ p) = p @ rest" by (auto simp: prefix_def)
  then have "length (drop i (stem @ p)) = length p + length rest" by simp
  with assms(3) have "rest \<noteq> []" by auto
  have "stem @ p = take i (stem @ p) @ p @ rest"
    using rest by (metis append_take_drop_id)
  then have "butlast (stem @ p) = take i (stem @ p) @ p @ butlast rest"
    using \<open>rest \<noteq> []\<close> by (metis butlast_append append_is_Nil_conv)
  then have "sublist p (butlast (stem @ p))" by (metis sublist_appendI)
  with assms(2) show False by (simp add: Contains_sublist)
qed

lemma ReplaceAll_only_at_end:
  assumes "p \<noteq> []"
  shows "(\<forall>i < length stem. \<not> prefix p (drop i (stem @ p))) \<Longrightarrow> ReplaceAll (stem @ p) p r = stem @ r"
proof (induction stem)
  case Nil
  with assms show ?case by (simp add: ReplaceAll_match ReplaceAll_Nil)
next
  case (Cons c cs)
  from Cons.prems have "\<not> prefix p (drop 0 ((c # cs) @ p))" by blast
  then have np: "\<not> prefix p (c # (cs @ p))" by simp
  have "\<forall>i < length cs. \<not> prefix p (drop i (cs @ p))"
  proof (intro allI impI)
    fix i assume "i < length cs"
    then have "Suc i < length (c # cs)" by simp
    with Cons.prems have "\<not> prefix p (drop (Suc i) ((c # cs) @ p))" by blast
    then show "\<not> prefix p (drop i (cs @ p))" by simp
  qed
  with Cons.IH have "ReplaceAll (cs @ p) p r = cs @ r" by simp
  with np assms show ?case by (simp add: ReplaceAll_skip)
qed

text \<open>
  On a fragment path \<open>stem @ M4sSuffix k\<close> in which the fragment suffix occurs at the
  end only, with two non-empty identifiers, the destination is \<open>stem\<close> followed by the
  suffix of the role.
\<close>

lemma FindM4sFiles_dst_suffix_once:
  assumes "M4sSuffix k \<noteq> []" and "videoId \<noteq> []" and "audioId \<noteq> []"
    and "\<not> Contains (butlast (stem @ M4sSuffix k)) (M4sSuffix k)"
  shows "FindM4sFiles_dst k name (stem @ M4sSuffix k) videoId audioId
         = stem @ (if Contains name audioId then AudioSuffix k else VideoSuffix k)"
  using assms only_at_end [OF assms(1) assms(4)]
  by (simp add: FindM4sFiles_dst_def ReplaceAll_only_at_end)

section \<open>The fragment walk\<close>

lemma FindM4sFiles_err:
  "FindM4sFiles k env w src info (Some e) = Inr (w, Some e)"
  by (simp add: FindM4sFiles_def)

lemma FindM4sFiles_fragment:
  "Ext (Name i) = M4sSuffix k \<Longrightarrow> GetVAId k env w src = Inr (videoId, audioId) \<Longrightarrow>
   FindM4sFiles k env w src (Some i) None
     = Inr (M4sToAV w src (FindM4sFiles_dst k (Name i) src videoId audioId))"
  by (simp add: FindM4sFiles_def split: prod.splits option.splits)

lemma first_error_append:
  "first_error fn s (xs @ ys) =
     (case first_error fn s xs of
        Inl a \<Rightarrow> Inl a
      | Inr (s1, Some err) \<Rightarrow> Inr (s1, Some err)
      | Inr (s1, None) \<Rightarrow> first_error fn s1 ys)"
  by (induction xs arbitrary: s) (auto split: sum.splits option.splits prod.splits)

lemma walkDir_visits:
  "walkDir fn s p t = first_error fn s (visits p t)"
  and walkDirs_visits:
  "walkDirs fn s p ts = first_error fn s (visitss p ts)"
proof (induction fn s p t and fn s p ts rule: walkDir_walkDirs.induct)
  case (1 fn s path n)
  show ?case by (simp split: sum.splits option.splits prod.splits)
next
  case (2 fn s path n ts)
  then show ?case by (simp split: sum.splits option.splits prod.splits)
next
  case (3 fn s path n e)
  show ?case by (simp split: sum.splits option.splits prod.splits)
next
  case (4 fn s path)
  show ?case by simp
next
  case (5 fn s path t ts)
  then show ?case
    by (simp add: first_error_append split: sum.splits option.splits prod.splits)
qed

lemmas walk_defs = WalkDir_def FindM4sFiles_def GetVAId_def FindM4sFiles_dst_def Itoa_def
  digits.simps spec_conver_def env0_def w0_def s1_tree_def s2_tree_def s8_tree_def s9_tree_def

text \<open>
  C2. The claim fails on the cache with the sessions \<open>s1\<close> and \<open>s2\<close>. No listing
  fails. The repair of the first fragment of \<open>s1\<close> fails, since its destination
  cannot be created: the walk ends there with that error, and neither the second
  fragment of \<open>s1\<close> nor the fragments of \<open>s2\<close> are repaired.
\<close>

theorem walk_continues_counterexample:
  "WalkDir (FindM4sFiles spec_conver env0) w0 ''cache''
     (Inr (Directory ''cache'' [s1_tree, s2_tree]))
   = Inr (w0, Some (PathError ''open'' (Join (Join ''cache'' ''s1'') ''100.video'')))
   \<and> files w0 (Join (Join ''cache'' ''s1'') ''200.audio'') = None
   \<and> files w0 (Join (Join ''cache'' ''s2'') ''100.video'') = None"
  by (simp add: walk_defs repair_defs path_defs)

text \<open>
  C2, amended. For every cache tree, the walk makes its calls in traversal order and
  ends at the first one that yields an error, at any depth, be it the call with the
  error of a failed listing or the call on a fragment whose repair \<open>M4sToAV\<close> returns
  an error: with the calls \<open>pre\<close> before it made without error, the walk returns that
  error to its caller with the file system as the failed call left it, whatever the
  calls \<open>post\<close> after it are.
\<close>

theorem walk_stops_at_first_error:
  assumes split: "visits root t = pre @ (p, d, x) # post"
    and pre: "first_error (FindM4sFiles k env) w pre = Inr (w1, None)"
    and bad: "(x = Some e \<and> w2 = w1) \<or>
              (x = None \<and> Ext (Name d) = M4sSuffix k
                 \<and> GetVAId k env w1 p = Inr (videoId, audioId)
                 \<and> M4sToAV w1 p (FindM4sFiles_dst k (Name d) p videoId audioId) = (w2, Some e))"
  shows "WalkDir (FindM4sFiles k env) w root (Inr t) = Inr (w2, Some e)"
proof -
  have "FindM4sFiles k env w1 p (Some d) x = Inr (w2, Some e)"
    using bad
  proof (elim disjE conjE)
    assume "x = Some e" "w2 = w1"
    then show ?thesis by (simp add: FindM4sFiles_err)
  next
    assume "x = None" "Ext (Name d) = M4sSuffix k" "GetVAId k env w1 p = Inr (videoId, audioId)"
      "M4sToAV w1 p (FindM4sFiles_dst k (Name d) p videoId audioId) = (w2, Some e)"
    then show ?thesis by (simp add: FindM4sFiles_fragment)
  qed
  then have "first_error (FindM4sFiles k env) w1 ((p, d, x) # post) = Inr (w2, Some e)"
    by simp
  with pre have "first_error (FindM4sFiles k env) w (pre @ (p, d, x) # post) = Inr (w2, Some e)"
    by (simp add: first_error_append)
  with split show ?thesis by (simp add: WalkDir_def walkDir_visits)
qed

theorem walk_stops_at_first_error_witness:
  "visits ''cache'' (Directory ''cache'' [s1_tree, s2_tree])
     = [(''cache'', \<lparr>Name = ''cache'', IsDir = True\<rparr>, None),
        (Join ''cache'' ''s1'', \<lparr>Name = ''s1'', IsDir = True\<rparr>, None),
        (Join (Join ''cache'' ''s1'') ''.playurl'', \<lparr>Name = ''.playurl'', IsDir = False\<rparr>, None)]
       @ (Join (Join ''cache'' ''s1'') ''100.m4s'', \<lparr>Name = ''100.m4s'', IsDir = False\<rparr>, None)
       # visits (Join (Join ''cache'' ''s1'') ''200.m4s'') (RegFile ''200.m4s'')
         @ visits (Join ''cache'' ''s2'') s2_tree
   \<and> M4sToAV w0 (Join (Join ''cache'' ''s1'') ''100.m4s'') (Join (Join ''cache'' ''s1'') ''100.video'')
     = (w0, Some (PathError ''open'' (Join (Join ''cache'' ''s1'') ''100.video'')))
   \<and> WalkDir (FindM4sFiles spec_conver env0) w0 ''cache''
       (Inr (Directory ''cache'' [s1_tree, s2_tree]))
     = Inr (w0, Some (PathError ''open'' (Join (Join ''cache'' ''s1'') ''100.video'')))"
  using walk_stops_at_first_error [of "''cache''" "Directory ''cache'' [s1_tree, s2_tree]"
      "[(''cache'', \<lparr>Name = ''cache'', IsDir = True\<rparr>, None),
        (Join ''cache'' ''s1'', \<lparr>Name = ''s1'', IsDir = True\<rparr>, None),
        (Join (Join ''cache'' ''s1'') ''.playurl'', \<lparr>Name = ''.playurl'', IsDir = False\<rparr>, None)]"
      "Join (Join ''cache'' ''s1'') ''100.m4s''" "\<lparr>Name = ''100.m4s'', IsDir = False\<rparr>" None
      "visits (Join (Join ''cache'' ''s1'') ''200.m4s'') (RegFile ''200.m4s'')
         @ visits (Join ''cache'' ''s2'') s2_tree"
      spec_conver env0 w0 w0 "PathError ''open'' (Join (Join ''cache'' ''s1'') ''100.video'')" w0
      "''100''" "''200''"]
  by (simp add: walk_defs repair_defs path_defs)

text \<open>
  C9. The claim: the destination is the fragment path with its extension replaced and
  the rest unchanged. The code replaces every occurrence of the fragment suffix in the
  path. The audio fragment of \<open>s9\<close> has the name \<open>200.m4s.m4s\<close>: the walk of \<open>s9\<close>
  repairs it without error into \<open>200.audio.audio\<close>, and writes nothing at
  \<open>200.m4s.audio\<close>, the path with the extension replaced.
\<close>

theorem FindM4sFiles_replaces_every_occurrence:
  "map_sum id (\<lambda>(w, e). (files w (Join (Join ''cache'' ''s9'') ''200.audio.audio''),
                           files w (replace_ext (Join (Join ''cache'' ''s9'') ''200.m4s.m4s'')
                                      (AudioSuffix spec_conver)), e))
     (WalkDir (FindM4sFiles spec_conver env0) w0 (Join ''cache'' ''s9'') (Inr s9_tree))
   = Inr (Some ''EEE'', None, None)
   \<and> replace_ext (Join (Join ''cache'' ''s9'') ''200.m4s.m4s'') (AudioSuffix spec_conver)
     = Join (Join ''cache'' ''s9'') ''200.m4s.audio''"
  by (simp add: walk_defs repair_defs path_defs replace_ext_def)

section \<open>The repaired streams of a session\<close>

lemma foldl_pick:
  "foldl (pick suf) v ps =
     (let ms = filter (\<lambda>p. Contains p suf) ps in if ms = [] then v else last ms)"
  by (induction ps arbitrary: v) (auto simp: pick_def Let_def)

lemma GetAudioAndVideo_fn_file:
  "GetAudioAndVideo_fn k env (c, v, a) p (Some \<lparr>Name = n, IsDir = False\<rparr>) None
     = Inr ((c, pick (VideoSuffix k) v p, pick (AudioSuffix k) a p), None)"
  by (simp add: GetAudioAndVideo_fn_def pick_def)

lemma GetAudioAndVideo_fn_dir:
  "\<exists>c1. GetAudioAndVideo_fn k env (c, v, a) p (Some \<lparr>Name = n, IsDir = True\<rparr>) None
     = Inr ((c1, v, a), None)"
  by (simp add: GetAudioAndVideo_fn_def Let_def split: option.splits)

lemma walk_GetAudioAndVideo:
  "readable t \<Longrightarrow>
     \<exists>c1. walk (GetAudioAndVideo_fn k env) (c, v, a) p t
       = Inr ((c1, foldl (pick (VideoSuffix k)) v (files_of p t),
                   foldl (pick (AudioSuffix k)) a (files_of p t)), None)"
  and walks_GetAudioAndVideo:
  "readables ts \<Longrightarrow>
     \<exists>c1. walks (GetAudioAndVideo_fn k env) (c, v, a) p ts
       = Inr ((c1, foldl (pick (VideoSuffix k)) v (files_ofs p ts),
                   foldl (pick (AudioSuffix k)) a (files_ofs p ts)), None)"
proof (induction t and ts arbitrary: c v a p and c v a p rule: readable_readables.induct)
  case (1 n)
  show ?case by (simp add: GetAudioAndVideo_fn_file)
next
  case (2 n ts)
  obtain c1 where "GetAudioAndVideo_fn k env (c, v, a) p (Some \<lparr>Name = n, IsDir = True\<rparr>) None
     = Inr ((c1, v, a), None)"
    using GetAudioAndVideo_fn_dir by blast
  moreover from 2 obtain c2 where "walks (GetAudioAndVideo_fn k env) (c1, v, a) p ts
       = Inr ((c2, foldl (pick (VideoSuffix k)) v (files_ofs p ts),
                   foldl (pick (AudioSuffix k)) a (files_ofs p ts)), None)"
    by fastforce
  ultimately show ?case by simp
next
  case (3 n e)
  then show ?case by simp
next
  case 4
  show ?case by simp
next
  case (5 t ts)
  let ?q = "Join p (Name (entry t))"
  let ?v = "foldl (pick (VideoSuffix k)) v (files_of ?q t)"
  let ?a = "foldl (pick (AudioSuffix k)) a (files_of ?q t)"
  from 5 obtain c1 where a: "walk (GetAudioAndVideo_fn k env) (c, v, a) ?q t
       = Inr ((c1, ?v, ?a), None)"
    by fastforce
  from 5 obtain c2 where "walks (GetAudioAndVideo_fn k env) (c1, ?v, ?a) p ts
       = Inr ((c2, foldl (pick (VideoSuffix k)) ?v (files_ofs p ts),
                   foldl (pick (AudioSuffix k)) ?a (files_ofs p ts)), None)"
    by fastforce
  with a show ?case by simp
qed

lemmas gav_defs = GetAudioAndVideo_def Walk_def GetAudioAndVideo_fn_def Let_def joinUrl_def
  spec_conver_def env0_def c0_def s3_tree_def

text \<open>
  C3. The claim fails on the session \<open>s3\<close>, which holds two repaired video files and
  two repaired audio files: the pair returned is the second video file and the second
  audio file, the first match of each kind being the first ones.
\<close>

theorem first_wins_counterexample:
  "map_sum id snd (GetAudioAndVideo spec_conver env0 c0 (Inr s3_tree) ''s3'')
     = Inr (Join ''s3'' ''101.video'', Join ''s3'' ''201.audio'', None)
   \<and> first_match (VideoSuffix spec_conver) (files_of ''s3'' s3_tree) = Join ''s3'' ''100.video''
   \<and> first_match (AudioSuffix spec_conver) (files_of ''s3'' s3_tree) = Join ''s3'' ''200.audio''"
  by (simp add: gav_defs first_match_def path_defs)

text \<open>
  C3, amended. For a session directory in which every listing succeeds,
  \<open>GetAudioAndVideo\<close> returns no error, and returns the last path in traversal order
  that contains the video suffix and the last one that contains the audio suffix
  (the empty path when there is none).
\<close>

theorem GetAudioAndVideo_last_wins:
  assumes "readable t"
  shows "map_sum id snd (GetAudioAndVideo k env c (Inr t) cachePath)
         = Inr (last_match (VideoSuffix k) (files_of cachePath t),
                last_match (AudioSuffix k) (files_of cachePath t), None)"
proof -
  from walk_GetAudioAndVideo[OF assms] obtain c1 where
    "walk (GetAudioAndVideo_fn k env) (c, [], []) cachePath t
       = Inr ((c1, foldl (pick (VideoSuffix k)) [] (files_of cachePath t),
                   foldl (pick (AudioSuffix k)) [] (files_of cachePath t)), None)"
    by blast
  then show ?thesis
    by (simp add: GetAudioAndVideo_def Walk_def foldl_pick last_match_def)
qed

theorem GetAudioAndVideo_last_wins_witness:
  "readable s3_tree \<and>
   map_sum id snd (GetAudioAndVideo spec_conver env0 c0 (Inr s3_tree) ''s3'')
     = Inr (Join ''s3'' ''101.video'', Join ''s3'' ''201.audio'', None)"
proof -
  have r: "readable s3_tree" by (simp add: s3_tree_def)
  show ?thesis
    using r GetAudioAndVideo_last_wins [OF r, of spec_conver env0 c0 "''s3''"]
    by (simp add: last_match_def s3_tree_def spec_conver_def path_defs)
qed

section \<open>The loop over the sessions\<close>

lemma Filter_values:
  "Filter ''groupTitle'' None = ''groupTitle''"
  "Filter ''title'' None = ''title''"
  "Filter ''uname'' None = ''uname''"
  "Filter ''completed'' None = ''completed''"
  "Filter ''completed '' None = ''completed''"
  "Filter ''downloading'' None = ''downloading''"
  by code_simp+

lemmas session_defs = session_def GetAudioAndVideo_def Walk_def GetAudioAndVideo_fn_def Let_def
  joinUrl_def Exist_def os_Mkdir_def Composition_def copyFile_def Filter_values
  spec_conver_def env0_def env1_def c0_def w0_def st0_def s8_tree_def repaired_def

text \<open>
  C4. The claim: a muxer whose wait returns an error contributes no output path. The
  code: \<open>Composition\<close> returns \<^verbatim>\<open>nil\<close> whatever the wait returns, so the branch of
  \<open>main\<close> for a failed composition is never taken. For the repaired session \<open>s4\<close> and
  a muxer that exits with status 1, the output path is recorded.
\<close>

theorem failed_wait_is_recorded:
  "map_sum id (\<lambda>st. (outputFiles st, map snd (muxed st)))
     (session spec_conver env1 st0 (Join ''cache'' ''s4''))
   = Inr ([Join (Join (Join ''cache'' ''output'') ''groupTitle-uname'') ''title.mp4''],
          [Some (OtherError ''exit status 1'')])"
  by (simp add: session_defs path_defs)

text \<open>
  C5. The claim: a session without its repaired streams is skipped and no muxer is
  started. The code: \<open>GetAudioAndVideo\<close> returns two empty paths and no error, so the
  branch of \<open>main\<close> for the missing streams is not taken. The complete session \<open>s8\<close>
  holds its manifest only: the fragment walk finds nothing to repair there and leaves
  the file system as it is, and the loop then starts the muxer with two empty inputs,
  records nothing as skipped, and records the output path.
\<close>

theorem missing_streams_are_muxed:
  "WalkDir (FindM4sFiles spec_conver env0) w0 (Join ''cache'' ''s8'') (Inr s8_tree)
     = Inr (w0, None)
   \<and> map_sum id (\<lambda>st. (map fst (muxed st), skipFilePaths st, outputFiles st))
       (session spec_conver env0 st0 (Join ''cache'' ''s8''))
     = Inr ([[''-i'', [], ''-i'', [], ''-c:v'', ''copy'', ''-c:a'', ''copy'', ''-strict'',
              ''experimental'', ''-n'',
              Join (Join (Join ''cache'' ''output'') ''groupTitle-uname'') ''title.mp4'',
              ''-hide_banner'', ''-stats'']], [],
            [Join (Join (Join ''cache'' ''output'') ''groupTitle-uname'') ''title.mp4''])"
  by (simp add: session_defs walk_defs path_defs)

text \<open>
  C7. The claim fails on the session \<open>s5\<close>: the status in its manifest is
  \<open>completed\<close> followed by a space, which is not the string \<open>completed\<close>, and the
  session is muxed and not recorded as skipped, since the status is compared after
  \<open>Filter\<close> has trimmed it.
\<close>

theorem status_counterexample:
  "files w0 (Join (Join ''cache'' ''s5'') ''videoInfo.json'') = Some ''completed ''
   \<and> map_option (\<lambda>js. js ''status'') (NewJson env0 ''completed '') = Some (''completed '', None)
   \<and> ''completed '' \<noteq> ''completed''
   \<and> map_sum id (\<lambda>st. (skipFilePaths st, outputFiles st, map fst (muxed st)))
       (session spec_conver env0 st0 (Join ''cache'' ''s5''))
     = Inr ([], [Join (Join (Join ''cache'' ''output'') ''groupTitle-uname'') ''title.mp4''],
            [[''-i'', Join (Join ''cache'' ''s5'') ''100.video'',
              ''-i'', Join (Join ''cache'' ''s5'') ''200.audio'',
              ''-c:v'', ''copy'', ''-c:a'', ''copy'', ''-strict'', ''experimental'', ''-n'',
              Join (Join (Join ''cache'' ''output'') ''groupTitle-uname'') ''title.mp4'',
              ''-hide_banner'', ''-stats'']])"
  by (simp add: session_defs path_defs)

text \<open>
  C7, amended. For a session whose walk returns no error and whose manifest is read and
  decoded, when the status after \<open>Filter\<close> is not \<open>completed\<close>: the body of the loop
  appends the session to the skipped ones and changes nothing else but the
  configuration that the walk returned (no muxer is started, no output is recorded,
  whatever the repaired streams are), and the loop goes on with the next session.
\<close>

theorem not_completed_is_skipped:
  assumes "GetAudioAndVideo k env (cfg st) (listing (fs st) v) v = Inr (c, video, audio, None)"
    and "files (fs st)
           (if \<not> Exist (fs st) (Join v (VideoInfoJson k)) then Join v (VideoInfoSuffix k)
            else Join v (VideoInfoJson k)) = Some infoStr"
    and "NewJson env infoStr = Some js"
    and "case_prod Filter (js ''status'') \<noteq> ''completed''"
  shows "session k env st v = Inr (st\<lparr>cfg := c, skipFilePaths := skipFilePaths st @ [v]\<rparr>)
    \<and> main_loop k env st (v # vs)
        = main_loop k env (st\<lparr>cfg := c, skipFilePaths := skipFilePaths st @ [v]\<rparr>) vs"
proof -
  have "session k env st v = Inr (st\<lparr>cfg := c, skipFilePaths := skipFilePaths st @ [v]\<rparr>)"
    using assms by (simp add: session_def Let_def)
  then show ?thesis by simp
qed

theorem not_completed_is_skipped_witness:
  "GetAudioAndVideo spec_conver env0 (cfg st0) (listing (fs st0) (Join ''cache'' ''s6''))
      (Join ''cache'' ''s6'')
     = Inr (c0, Join (Join ''cache'' ''s6'') ''100.video'',
            Join (Join ''cache'' ''s6'') ''200.audio'', None)
   \<and> case_prod Filter (''downloading'', None) \<noteq> ''completed''
   \<and> session spec_conver env0 st0 (Join ''cache'' ''s6'')
     = Inr (st0\<lparr>cfg := c0, skipFilePaths := skipFilePaths st0 @ [Join ''cache'' ''s6'']\<rparr>)"
  using not_completed_is_skipped [of spec_conver env0 st0 "Join ''cache'' ''s6''" c0
      "Join (Join ''cache'' ''s6'') ''100.video''" "Join (Join ''cache'' ''s6'') ''200.audio''"
      "''downloading''" "\<lambda>key. if key = ''status'' then (''downloading'', None) else (key, None)"]
  by (simp add: GetAudioAndVideo_def Walk_def GetAudioAndVideo_fn_def Let_def
      joinUrl_def Exist_def Filter_values
      spec_conver_def env0_def c0_def w0_def st0_def repaired_def path_defs)

end
